theory Spec2Isabelle
  imports Complex_Main
begin

section \<open>Data model\<close>

text \<open>
  The fields of \<open>gdax.Message\<close> that the program reads.  \<open>Price\<close> is a Go \<open>float64\<close>;
  a finite float is a real number, and the aggregation only copies and compares prices
  (\<open>math.Min\<close>, \<open>math.Max\<close>), which is exact.  \<open>Time\<close> is the instant of the trade in
  nanoseconds since Go's zero time.
\<close>

record Message =
  Side :: string
  Price :: real
  Time :: int

text \<open>
  \<open>type Bucket struct\<close>.  The fields \<open>Max\<close> and \<open>Min\<close> carry a suffix, since HOL has
  constants of these names.  \<open>Trades\<close> is an \<open>int64\<close>, an integer here with the
  wrap-around written where it is incremented; \<open>Start\<close> is an instant and \<open>Duration\<close>
  a number of nanoseconds.
\<close>

record Bucket =
  Open :: real
  Close :: real
  Max_b :: real
  Min_b :: real
  Trades :: int
  Start :: int
  Duration :: int

text \<open>\<open>math.MaxFloat32\<close>, which is \<open>2\<^sup>1\<^sup>2\<^sup>7 * (2 - 2\<^sup>-\<^sup>2\<^sup>3)\<close>.\<close>

definition MaxFloat32 :: real where
  "MaxFloat32 = 2 ^ 128 - 2 ^ 104"

text \<open>Arithmetic on \<open>int64\<close> wraps around in two's complement.\<close>

definition int64 :: "int \<Rightarrow> int" where
  "int64 x = (x + 2 ^ 63) mod 2 ^ 64 - 2 ^ 63"

text \<open>
  \<open>time.Time.Truncate\<close> of the Go standard library: the instant rounded down to a
  multiple of \<open>d\<close> since the zero time, and the instant unchanged when \<open>d \<le> 0\<close>.
  Instants are integers here, without the bounds of \<open>time.Time\<close>, which no trade of
  the feed comes near.
\<close>

definition Truncate :: "int \<Rightarrow> int \<Rightarrow> int" where
  "Truncate t d = (if d \<le> 0 then t else t - t mod d)"

section \<open>Aggregation: ProcessMessage\<close>

text \<open>The bucket literal that \<open>ProcessMessage\<close> appends (in two places).\<close>

definition newBucket :: "int \<Rightarrow> Message \<Rightarrow> int \<Rightarrow> Bucket" where
  "newBucket candleSize message t =
     \<lparr>Open = Price message, Close = Price message, Max_b = 0, Min_b = MaxFloat32,
      Trades = 0, Start = t, Duration = candleSize\<rparr>"

text \<open>
  The slice holds pointers, and \<open>bucket\<close> points to its last element: a write through
  \<open>bucket\<close> is a write to the last element of the list.
\<close>

definition updLast :: "('a \<Rightarrow> 'a) \<Rightarrow> 'a list \<Rightarrow> 'a list" where
  "updLast f xs = xs[length xs - 1 := f (xs ! (length xs - 1))]"

text \<open>The three updates that close \<open>ProcessMessage\<close>.\<close>

definition tally :: "Message \<Rightarrow> Bucket \<Rightarrow> Bucket" where
  "tally message bucket =
     bucket\<lparr>Trades := int64 (Trades bucket + 1),
            Max_b := max (Max_b bucket) (Price message),
            Min_b := min (Min_b bucket) (Price message)\<rparr>"

record state =
  trades :: "Message list"
  buckets :: "Bucket list"

definition ProcessMessage :: "int \<Rightarrow> Message \<Rightarrow> state \<Rightarrow> state" where
  "ProcessMessage candleSize message s =
     (let trades1 = trades s @ [message];
          t = Truncate (Time message) candleSize;
          buckets1 = (if length (buckets s) = 0
                      then buckets s @ [newBucket candleSize message t]
                      else buckets s);
          buckets2 = (if Start (last buckets1) = t
                      then updLast (\<lambda>b. b\<lparr>Close := Price message\<rparr>) buckets1
                      else buckets1 @ [newBucket candleSize message t])
      in \<lparr>trades = trades1, buckets = updLast (tally message) buckets2\<rparr>)"

text \<open>
  \<open>main\<close> starts from two empty slices and calls \<open>ProcessMessage\<close> on each message it
  receives; \<open>Ingest\<close> is the state after the messages \<open>ms\<close>.
\<close>

definition Ingest :: "int \<Rightarrow> Message list \<Rightarrow> state" where
  "Ingest candleSize ms =
     foldl (\<lambda>s m. ProcessMessage candleSize m s) \<lparr>trades = [], buckets = []\<rparr> ms"

subsection \<open>The routing of trades, in the specification's words\<close>

text \<open>
  ``A trade is routed to the bucket whose \<open>windowStart\<close> equals [its key]; if this does
  not match the last bucket's \<open>windowStart\<close>, a new bucket is appended.''  \<open>routedSpec\<close>
  lists, bucket by bucket, the window start and the trades routed into the bucket, in
  their order of arrival.  The key of a trade is a parameter.
\<close>

definition routeSpec ::
    "(Message \<Rightarrow> int) \<Rightarrow> (int \<times> Message list) list \<Rightarrow> Message \<Rightarrow> (int \<times> Message list) list" where
  "routeSpec key gs m =
     (if gs = [] \<or> fst (last gs) \<noteq> key m then gs @ [(key m, [m])]
      else butlast gs @ [(fst (last gs), snd (last gs) @ [m])])"

definition routedSpec :: "(Message \<Rightarrow> int) \<Rightarrow> Message list \<Rightarrow> (int \<times> Message list) list" where
  "routedSpec key ms = foldl (routeSpec key) [] ms"

text \<open>The key that \<open>ProcessMessage\<close> computes for a message.\<close>

definition windowStart :: "int \<Rightarrow> Message \<Rightarrow> int" where
  "windowStart candleSize m = Truncate (Time m) candleSize"

text \<open>
  What a bucket \<open>b\<close> holds of the trades \<open>snd g\<close> routed into it: the first price, the
  latest price, the number of trades as an \<open>int64\<close>, the running maximum together with
  the seed \<open>0\<close> and the running minimum together with the seed \<open>MaxFloat32\<close>; so the
  running maximum and minimum themselves when the prices lie between the two seeds.
\<close>

definition summarises :: "Bucket \<Rightarrow> int \<times> Message list \<Rightarrow> bool" where
  "summarises b g \<longleftrightarrow>
     (let ps = map Price (snd g)
      in ps \<noteq> [] \<and> Start b = fst g \<and> Open b = hd ps \<and> Close b = last ps \<and>
         Trades b = int64 (int (length ps)) \<and>
         Max_b b = Max (set (0 # ps)) \<and> Min_b b = Min (set (MaxFloat32 # ps)) \<and>
         ((\<forall>p \<in> set ps. 0 \<le> p \<and> p \<le> MaxFloat32) \<longrightarrow>
            Max_b b = Max (set ps) \<and> Min_b b = Min (set ps)))"

text \<open>
  The specification's window index \<open>floor(timestamp / windowDuration)\<close>, and the values
  of a list in the order of their first occurrence.
\<close>

definition windowIndexSpec :: "int \<Rightarrow> Message \<Rightarrow> int" where
  "windowIndexSpec windowDuration m = Time m div windowDuration"

fun firstOccurrences :: "'a list \<Rightarrow> 'a list" where
  "firstOccurrences [] = []"
| "firstOccurrences (x # xs) = x # firstOccurrences (filter (\<lambda>y. y \<noteq> x) xs)"

section \<open>Rendering\<close>

text \<open>
  \<open>float64\<close> arithmetic.  An operation of the source returns the exact result rounded
  to the format; the rounding \<open>rnd\<close> is a parameter of the model, and \<open>float64_rounding\<close>
  says the two properties of it that the proofs use: it is monotone, and an integer of
  at most 53 bits is a \<open>float64\<close>.  A division by zero is written out, since its result
  is an infinity or a NaN; a result too large for the format is outside the model.
\<close>

definition float64_rounding :: "(real \<Rightarrow> real) \<Rightarrow> bool" where
  "float64_rounding rnd \<longleftrightarrow>
     (\<forall>a b. a \<le> b \<longrightarrow> rnd a \<le> rnd b) \<and>
     (\<forall>n::int. \<bar>n\<bar> \<le> 2 ^ 53 \<longrightarrow> rnd (of_int n) = of_int n)"

datatype DrawError = DivisionByZero | NotRepresentable

text \<open>
  The conversion \<open>int(v)\<close> of a finite \<open>float64\<close> truncates towards zero; Go leaves the
  result to the implementation when the value does not fit the integer type.
\<close>

definition toInt :: "real \<Rightarrow> DrawError + int" where
  "toInt v =
     (let z = (if 0 \<le> v then \<lfloor>v\<rfloor> else \<lceil>v\<rceil>)
      in if - (2 ^ 63) \<le> z \<and> z < 2 ^ 63 then Inr z else Inl NotRepresentable)"

record Frame =
  frame_x :: int
  frame_y :: int
  frame_w :: int
  frame_h :: int

text \<open>
  The loop header shared by the three panels,
  \<^verbatim>\<open>for line, j := 1, len(xs)-1; j >= 0 && line < f.h; line, j = line+1, j-1\<close>:
  the rows it visits, each with the element it shows.
\<close>

function visit :: "int \<Rightarrow> 'a list \<Rightarrow> int \<Rightarrow> int \<Rightarrow> (int \<times> 'a) list" where
  "visit h xs line j =
     (if j \<ge> 0 \<and> line < h then (line, xs ! nat j) # visit h xs (line + 1) (j - 1) else [])"
  by pat_completeness auto
termination
  by (relation "measure (\<lambda>(h, xs, line, j). nat (j + 1))") auto

definition visibleRows :: "Frame \<Rightarrow> 'a list \<Rightarrow> (int \<times> 'a) list" where
  "visibleRows f xs = visit (frame_h f) xs 1 (int (length xs) - 1)"

definition visibleBuckets :: "Frame \<Rightarrow> Bucket list \<Rightarrow> Bucket list" where
  "visibleBuckets f bs = map snd (visibleRows f bs)"

subsection \<open>DrawCandles\<close>

text \<open>The first loop of \<open>DrawCandles\<close>, over all of \<open>buckets\<close>.\<close>

definition candleBounds :: "Bucket list \<Rightarrow> real \<times> real" where
  "candleBounds bs =
     foldl (\<lambda>(lowerBound, upperBound) box.
              (min lowerBound (Min_b box), max upperBound (Max_b box)))
       (MaxFloat32, 0) bs"

definition padBounds :: "(real \<Rightarrow> real) \<Rightarrow> real \<times> real \<Rightarrow> real \<times> real" where
  "padBounds rnd lu =
     (if rnd (snd lu - fst lu) < 100 then (rnd (fst lu - 50), rnd (snd lu + 50)) else lu)"

text \<open>
  The expression \<^verbatim>\<open>1 + (v-lowerBound)/priceSpread*float64(candleFrame.w-2)\<close> that gives
  the column of a price \<open>v\<close>.
\<close>

definition column :: "(real \<Rightarrow> real) \<Rightarrow> real \<Rightarrow> real \<Rightarrow> int \<Rightarrow> real \<Rightarrow> DrawError + real" where
  "column rnd lowerBound priceSpread w v =
     (if priceSpread = 0 then Inl DivisionByZero
      else Inr (rnd (1 + rnd (rnd (rnd (v - lowerBound) / priceSpread)
                                * rnd (of_int (int64 (w - 2)))))))"

text \<open>The cells \<open>int(start), ..., int(stop)\<close> of a row that an inner loop sets.\<close>

definition cellsBetween :: "DrawError + real \<Rightarrow> DrawError + real \<Rightarrow> DrawError + int list" where
  "cellsBetween start stop =
     (case start of Inl e \<Rightarrow> Inl e | Inr a \<Rightarrow>
      (case stop of Inl e \<Rightarrow> Inl e | Inr b \<Rightarrow>
       (case toInt a of Inl e \<Rightarrow> Inl e | Inr i \<Rightarrow>
        (case toInt b of Inl e \<Rightarrow> Inl e | Inr k \<Rightarrow> Inr [i..k]))))"

datatype Color = ColorGreen | ColorRed | ColorBlue

record CandleRow =
  candle_line :: int
  candle_fg :: Color
  wick :: "DrawError + int list"
  body :: "DrawError + int list"

record CandlePanel =
  lowerBound :: real
  upperBound :: real
  candle_rows :: "CandleRow list"

definition candleRow :: "(real \<Rightarrow> real) \<Rightarrow> real \<Rightarrow> real \<Rightarrow> int \<Rightarrow> int \<times> Bucket \<Rightarrow> CandleRow" where
  "candleRow rnd lb priceSpread w r =
     (let bucket = snd r in
      \<lparr>candle_line = fst r,
       candle_fg = (if Close bucket < Open bucket then ColorRed else ColorGreen),
       wick = cellsBetween (column rnd lb priceSpread w (min (Min_b bucket) (Max_b bucket)))
                (column rnd lb priceSpread w (max (Min_b bucket) (Max_b bucket))),
       body = cellsBetween (column rnd lb priceSpread w (min (Open bucket) (Close bucket)))
                (column rnd lb priceSpread w (max (Open bucket) (Close bucket)))\<rparr>)"

definition DrawCandles :: "(real \<Rightarrow> real) \<Rightarrow> Frame \<Rightarrow> Bucket list \<Rightarrow> CandlePanel" where
  "DrawCandles rnd candleFrame bs =
     (let lu = padBounds rnd (candleBounds bs);
          priceSpread = rnd (snd lu - fst lu)
      in \<lparr>lowerBound = fst lu, upperBound = snd lu,
          candle_rows = map (candleRow rnd (fst lu) priceSpread (frame_w candleFrame))
                          (visibleRows candleFrame bs)\<rparr>)"

subsection \<open>DrawVolume\<close>

definition volumeUpperBound :: "(real \<Rightarrow> real) \<Rightarrow> Bucket list \<Rightarrow> real" where
  "volumeUpperBound rnd bs = foldl (\<lambda>v box. max v (rnd (of_int (Trades box)))) 0 bs"

text \<open>
  The bar of a row: the cells \<open>1, ..., int(stop)\<close>, where \<open>stop\<close> is
  \<^verbatim>\<open>float64(bucket.Trades) / volumeSpread * float64(volumeFrame.w-1)\<close>.
\<close>

definition bar :: "(real \<Rightarrow> real) \<Rightarrow> real \<Rightarrow> int \<Rightarrow> Bucket \<Rightarrow> DrawError + int list" where
  "bar rnd volumeSpread w bucket =
     (if volumeSpread = 0 then Inl DivisionByZero
      else (case toInt (rnd (rnd (rnd (of_int (Trades bucket)) / volumeSpread)
                               * rnd (of_int (int64 (w - 1))))) of
              Inl e \<Rightarrow> Inl e
            | Inr k \<Rightarrow> Inr [1..k]))"

record VolumePanel =
  volumeMax :: real
  volume_rows :: "(int \<times> (DrawError + int list)) list"

definition DrawVolume :: "(real \<Rightarrow> real) \<Rightarrow> Frame \<Rightarrow> Bucket list \<Rightarrow> VolumePanel" where
  "DrawVolume rnd volumeFrame bs =
     (let volumeSpread = volumeUpperBound rnd bs
      in \<lparr>volumeMax = volumeSpread,
          volume_rows = map (\<lambda>r. (fst r, bar rnd volumeSpread (frame_w volumeFrame) (snd r)))
                          (visibleRows volumeFrame bs)\<rparr>)"

section \<open>The stream connector: Connect\<close>

text \<open>
  The goroutine of \<open>Connect\<close> reads from the connection for ever.  Its input is the
  sequence of outcomes of its calls of \<open>ReadJSON\<close>, across reconnections: an error, or
  the contents of \<open>message\<close> after a read that succeeded.  Its output is what it does:
  a sleep (the \<open>time.Duration\<close> passed to \<open>time.Sleep\<close>, in nanoseconds), a call of
  \<open>Connect\<close>, which dials and subscribes again, or a message sent on the channel.  The
  outcome of the dial is not an input of the model: a trace lists reads only.  At
  most one such goroutine touches \<open>connectionErrCount\<close> at a time, since the one that
  fails leaves its loop right after it has started the next.  \<open>connectionErrCount\<close> is
  a Go \<open>int\<close>, of 64 bits on the platforms considered here, as is \<open>time.Duration\<close>.
\<close>

datatype ReadResult = ReadError | ReadOk Message

datatype Action = Sleep int | Reconnect | Send Message

definition Second :: int where
  "Second = 1000000000"

definition onRead :: "int \<Rightarrow> ReadResult \<Rightarrow> Action list \<times> int" where
  "onRead connectionErrCount r =
     (case r of
        ReadError \<Rightarrow>
          (let n = int64 (connectionErrCount + 1)
           in ([Sleep (int64 (int64 (n * n) * Second)), Reconnect], n))
      | ReadOk message \<Rightarrow>
          (if length (Side message) = 0 then ([], connectionErrCount)
           else ([Send message], 0)))"

fun readLoop :: "int \<Rightarrow> ReadResult list \<Rightarrow> Action list \<times> int" where
  "readLoop connectionErrCount [] = ([], connectionErrCount)"
| "readLoop connectionErrCount (r # rs) =
     (let (acts, n) = onRead connectionErrCount r;
          (acts', n') = readLoop n rs
      in (acts @ acts', n'))"


section \<open>Properties of the aggregation\<close>

lemma int64_succ: "int64 (int64 a + 1) = int64 (a + 1)"
proof -
  have "((a + 2 ^ 63) mod 2 ^ 64 + 1) mod 2 ^ 64 = (a + 2 ^ 63 + 1) mod (2 ^ 64 :: int)"
    by (rule mod_add_left_eq)
  then show ?thesis by (simp add: int64_def add.commute add.left_commute)
qed

lemma int64_id: "- (2 ^ 63) \<le> a \<Longrightarrow> a < 2 ^ 63 \<Longrightarrow> int64 a = a"
  by (simp add: int64_def)

lemma updLast_snoc: "updLast f (xs @ [x]) = xs @ [f x]"
  by (simp add: updLast_def)

lemma buckets_ProcessMessage_Nil:
  "buckets s = [] \<Longrightarrow>
   buckets (ProcessMessage d m s) =
     [tally m ((newBucket d m (Truncate (Time m) d))\<lparr>Close := Price m\<rparr>)]"
  by (simp add: ProcessMessage_def Let_def updLast_def newBucket_def)

lemma buckets_ProcessMessage_same:
  "buckets s = bs @ [b] \<Longrightarrow> Start b = Truncate (Time m) d \<Longrightarrow>
   buckets (ProcessMessage d m s) = bs @ [tally m (b\<lparr>Close := Price m\<rparr>)]"
  by (simp add: ProcessMessage_def Let_def updLast_snoc)

lemma buckets_ProcessMessage_new:
  "buckets s = bs @ [b] \<Longrightarrow> Start b \<noteq> Truncate (Time m) d \<Longrightarrow>
   buckets (ProcessMessage d m s) =
     bs @ [b, tally m (newBucket d m (Truncate (Time m) d))]"
  using updLast_snoc [of "tally m" "bs @ [b]" "newBucket d m (Truncate (Time m) d)"]
  by (simp add: ProcessMessage_def Let_def)

lemma Ingest_Nil: "Ingest d [] = \<lparr>trades = [], buckets = []\<rparr>"
  by (simp add: Ingest_def)

lemma Ingest_snoc: "Ingest d (ms @ [m]) = ProcessMessage d m (Ingest d ms)"
  by (simp add: Ingest_def)

text \<open>\<open>ProcessMessage\<close> on a state written out, for the evaluation of examples.\<close>

lemma ProcessMessage_empty:
  "ProcessMessage d m \<lparr>trades = ts, buckets = []\<rparr> =
     \<lparr>trades = ts @ [m],
      buckets = [tally m ((newBucket d m (Truncate (Time m) d))\<lparr>Close := Price m\<rparr>)]\<rparr>"
  by (simp add: ProcessMessage_def Let_def updLast_def newBucket_def)

lemma ProcessMessage_one:
  "ProcessMessage d m \<lparr>trades = ts, buckets = [b]\<rparr> =
     \<lparr>trades = ts @ [m],
      buckets = (if Start b = Truncate (Time m) d then [tally m (b\<lparr>Close := Price m\<rparr>)]
                 else [b, tally m (newBucket d m (Truncate (Time m) d))])\<rparr>"
  by (simp add: ProcessMessage_def Let_def updLast_def)

lemma ProcessMessage_two:
  "ProcessMessage d m \<lparr>trades = ts, buckets = [a, b]\<rparr> =
     \<lparr>trades = ts @ [m],
      buckets = (if Start b = Truncate (Time m) d then [a, tally m (b\<lparr>Close := Price m\<rparr>)]
                 else [a, b, tally m (newBucket d m (Truncate (Time m) d))])\<rparr>"
  by (simp add: ProcessMessage_def Let_def updLast_def)

lemmas Ingest_eval =
  Ingest_def ProcessMessage_empty ProcessMessage_one ProcessMessage_two tally_def newBucket_def
  Truncate_def int64_id MaxFloat32_def

lemma routedSpec_Nil: "routedSpec key [] = []"
  by (simp add: routedSpec_def)

lemma routedSpec_snoc: "routedSpec key (ms @ [m]) = routeSpec key (routedSpec key ms) m"
  by (simp add: routedSpec_def)

lemma Max_sentinel_exact:
  assumes "ps \<noteq> []" and "\<forall>p \<in> set ps. (c::real) \<le> p"
  shows "Max (set (c # ps)) = Max (set ps)"
proof -
  have "Max (set ps) \<in> set ps" using assms(1) by (simp add: Max_in)
  then have le: "c \<le> Max (set ps)" using assms(2) by blast
  have "Max (insert c (set ps)) = max c (Max (set ps))"
    using assms(1) by (intro Max_insert) simp_all
  with le show ?thesis by (simp only: list.set max.absorb2)
qed

lemma Min_sentinel_exact:
  assumes "ps \<noteq> []" and "\<forall>p \<in> set ps. p \<le> (c::real)"
  shows "Min (set (c # ps)) = Min (set ps)"
proof -
  have "Min (set ps) \<in> set ps" using assms(1) by (simp add: Min_in)
  then have le: "Min (set ps) \<le> c" using assms(2) by blast
  have "Min (insert c (set ps)) = min c (Min (set ps))"
    using assms(1) by (intro Min_insert) simp_all
  with le show ?thesis by (simp only: list.set min.absorb2)
qed

lemma Max_sentinel_snoc: "Max (set (c # ps @ [p])) = max (Max (set (c # ps))) (p::real)"
proof -
  have "set (c # ps @ [p]) = insert p (set (c # ps))" by auto
  then show ?thesis by (simp add: max.commute del: set_simps)
qed

lemma Min_sentinel_snoc: "Min (set (c # ps @ [p])) = min (Min (set (c # ps))) (p::real)"
proof -
  have "set (c # ps @ [p]) = insert p (set (c # ps))" by auto
  then show ?thesis by (simp add: min.commute del: set_simps)
qed

lemma summarises_first:
  "summarises (tally m ((newBucket d m t)\<lparr>Close := Price m\<rparr>)) (t, [m])"
  by (simp add: summarises_def tally_def newBucket_def max_def min_def int64_def)

lemma summarises_first':
  "summarises (tally m (newBucket d m t)) (t, [m])"
  by (simp add: summarises_def tally_def newBucket_def max_def min_def int64_def)

lemma summarises_next:
  assumes "summarises b (k, ms)"
  shows "summarises (tally m (b\<lparr>Close := Price m\<rparr>)) (k, ms @ [m])"
proof -
  let ?ps = "map Price ms"
  let ?qs = "map Price ms @ [Price m]"
  let ?b = "tally m (b\<lparr>Close := Price m\<rparr>)"
  from assms have ne: "?ps \<noteq> []" and st: "Start b = k" and op: "Open b = hd ?ps"
    and tr: "Trades b = int64 (int (length ?ps))"
    and mx: "Max_b b = Max (set (0 # ?ps))" and mn: "Min_b b = Min (set (MaxFloat32 # ?ps))"
    by (simp_all add: summarises_def Let_def)
  have mx': "Max_b ?b = Max (set (0 # ?qs))"
    using mx by (simp add: tally_def Max_sentinel_snoc del: set_simps set_append)
  have mn': "Min_b ?b = Min (set (MaxFloat32 # ?qs))"
    using mn by (simp add: tally_def Min_sentinel_snoc del: set_simps set_append)
  have tr': "Trades ?b = int64 (int (length ?qs))"
    using tr int64_succ [of "int (length ms)"] by (simp add: tally_def add.commute)
  have rest: "?qs \<noteq> []" "Start ?b = k" "Open ?b = hd ?qs" "Close ?b = last ?qs"
    using ne st op by (simp_all add: tally_def)
  have exact: "Max_b ?b = Max (set ?qs) \<and> Min_b ?b = Min (set ?qs)"
    if a: "\<forall>p \<in> set ?qs. 0 \<le> p \<and> p \<le> MaxFloat32"
  proof -
    have "Max (set (0 # ?qs)) = Max (set ?qs)"
      using rest(1) a by (intro Max_sentinel_exact) blast+
    moreover have "Min (set (MaxFloat32 # ?qs)) = Min (set ?qs)"
      using rest(1) a by (intro Min_sentinel_exact) blast+
    ultimately show ?thesis by (simp only: mx' mn')
  qed
  have "map Price (snd (k, ms @ [m])) = ?qs" "fst (k, ms @ [m]) = k" by simp_all
  then show ?thesis
    unfolding summarises_def Let_def using rest mx' mn' tr' exact by (simp only:) blast
qed

lemma route_step:
  assumes "list_all2 summarises (buckets s) gs"
  shows "list_all2 summarises (buckets (ProcessMessage d m s))
           (routeSpec (windowStart d) gs m)"
proof (cases gs rule: rev_cases)
  case Nil
  with assms have "buckets s = []" by simp
  then show ?thesis
    using Nil by (simp add: buckets_ProcessMessage_Nil routeSpec_def summarises_first
        windowStart_def)
next
  case (snoc gs' g)
  with assms obtain bs' b where bs: "buckets s = bs' @ [b]"
    and all: "list_all2 summarises bs' gs'" and last: "summarises b g"
    by (auto simp: list_all2_append2 list_all2_Cons2)
  from last have st: "Start b = fst g" by (simp add: summarises_def Let_def)
  show ?thesis
  proof (cases "Start b = Truncate (Time m) d")
    case True
    have "summarises (tally m (b\<lparr>Close := Price m\<rparr>)) (fst g, snd g @ [m])"
      using last summarises_next [of b "fst g" "snd g" m] by simp
    then show ?thesis
      using True st snoc all
      by (simp add: buckets_ProcessMessage_same [OF bs True] routeSpec_def list_all2_appendI
          windowStart_def)
  next
    case False
    let ?t = "Truncate (Time m) d"
    have "list_all2 summarises (bs' @ [b]) (gs' @ [g])"
      using all last by (simp add: list_all2_appendI)
    then have "list_all2 summarises ((bs' @ [b]) @ [tally m (newBucket d m ?t)])
        ((gs' @ [g]) @ [(?t, [m])])"
      by (rule list_all2_appendI) (simp add: summarises_first')
    then show ?thesis
      using False st snoc
      by (simp add: buckets_ProcessMessage_new [OF bs False] routeSpec_def windowStart_def)
  qed
qed

lemma Ingest_summarises:
  "list_all2 summarises (buckets (Ingest d ms)) (routedSpec (windowStart d) ms)"
  by (induction ms rule: rev_induct)
    (simp_all add: Ingest_Nil Ingest_snoc routedSpec_Nil routedSpec_snoc route_step)

lemma Start_tally: "Start (tally m b) = Start b"
  by (simp add: tally_def)

lemma ProcessMessage_last:
  "buckets (ProcessMessage d m s) \<noteq> [] \<and>
   Start (last (buckets (ProcessMessage d m s))) = Truncate (Time m) d"
proof (cases "buckets s" rule: rev_cases)
  case Nil
  then show ?thesis
    by (simp add: buckets_ProcessMessage_Nil Start_tally newBucket_def)
next
  case (snoc bs b)
  then show ?thesis
    by (cases "Start b = Truncate (Time m) d")
      (simp_all add: buckets_ProcessMessage_same buckets_ProcessMessage_new Start_tally
        newBucket_def)
qed

lemma Ingest_single:
  "buckets (Ingest d [m]) = [tally m ((newBucket d m (Truncate (Time m) d))\<lparr>Close := Price m\<rparr>)]"
  using Ingest_snoc [of d "[]" m] by (simp add: Ingest_Nil buckets_ProcessMessage_Nil)

lemma Ingest_last:
  "ms \<noteq> [] \<Longrightarrow> buckets (Ingest d ms) \<noteq> [] \<and>
     Start (last (buckets (Ingest d ms))) = Truncate (Time (last ms)) d"
  by (cases ms rule: rev_cases) (simp_all add: Ingest_snoc ProcessMessage_last)

lemma ProcessMessage_shape:
  "butlast (buckets (ProcessMessage d m s)) = buckets s \<or>
   (buckets s \<noteq> [] \<and> butlast (buckets (ProcessMessage d m s)) = butlast (buckets s) \<and>
    length (buckets (ProcessMessage d m s)) = length (buckets s) \<and>
    Start (last (buckets (ProcessMessage d m s))) = Start (last (buckets s)))"
proof (cases "buckets s" rule: rev_cases)
  case Nil
  then show ?thesis by (simp add: buckets_ProcessMessage_Nil)
next
  case (snoc bs b)
  then show ?thesis
    by (cases "Start b = Truncate (Time m) d")
      (simp_all add: buckets_ProcessMessage_same buckets_ProcessMessage_new Start_tally
        butlast_append)
qed

lemma Truncate_mono: "t \<le> t' \<Longrightarrow> Truncate t d \<le> Truncate t' d"
proof (cases "d \<le> 0")
  case True
  then show "t \<le> t' \<Longrightarrow> ?thesis" by (simp add: Truncate_def)
next
  case False
  assume le: "t \<le> t'"
  from False have "t div d \<le> t' div d" using le by (simp add: zdiv_mono1)
  then have "t div d * d \<le> t' div d * d" using False by (simp add: mult_right_mono)
  then show ?thesis using False by (simp add: Truncate_def minus_mod_eq_div_mult)
qed

lemma Truncate_index: "0 < d \<Longrightarrow> Truncate t d = t div d * d"
  by (simp add: Truncate_def minus_mod_eq_div_mult)

lemma sorted_le_last:
  "sorted (map f xs) \<Longrightarrow> x \<in> set xs \<Longrightarrow> f x \<le> (f (last xs) :: int)"
  by (cases xs rule: rev_cases) (auto simp: sorted_append)

lemma Ingest_strictly_increasing:
  "sorted (map Time ms) \<Longrightarrow> sorted_wrt (<) (map Start (buckets (Ingest d ms)))"
proof (induction ms rule: rev_induct)
  case Nil
  then show ?case by (simp add: Ingest_Nil)
next
  case (snoc m ms)
  from snoc.prems have srt: "sorted (map Time ms)" and le: "\<forall>t \<in> set ms. Time t \<le> Time m"
    by (auto simp: sorted_append)
  have IH: "sorted_wrt (<) (map Start (buckets (Ingest d ms)))" using snoc.IH srt by simp
  show ?case
  proof (cases "ms = []")
    case True
    then show ?thesis by (simp add: Ingest_single)
  next
    case False
    then obtain bs b where bs: "buckets (Ingest d ms) = bs @ [b]"
      using Ingest_last [of ms d] by (cases "buckets (Ingest d ms)" rule: rev_cases) auto
    have st: "Start b = Truncate (Time (last ms)) d"
      using Ingest_last [OF False, of d] bs by simp
    have "Time (last ms) \<le> Time m" using le False by simp
    then have key: "Start b \<le> Truncate (Time m) d" using st Truncate_mono by simp
    show ?thesis
    proof (cases "Start b = Truncate (Time m) d")
      case True
      then show ?thesis
        using IH bs by (simp add: Ingest_snoc buckets_ProcessMessage_same [OF bs True] Start_tally)
    next
      case neq: False
      with key have lt: "Start b < Truncate (Time m) d" by simp
      have "\<forall>x \<in> set (map Start bs). x < Start b"
        using IH bs by (simp add: sorted_wrt_append)
      then have "\<forall>x \<in> set (map Start (bs @ [b])). x < Truncate (Time m) d"
        using lt by auto
      then show ?thesis
        using IH bs
        by (simp add: Ingest_snoc buckets_ProcessMessage_new [OF bs neq] Start_tally
            newBucket_def sorted_wrt_append)
    qed
  qed
qed

lemma firstOccurrences_snoc:
  "firstOccurrences (xs @ [x]) =
     (if x \<in> set xs then firstOccurrences xs else firstOccurrences xs @ [x])"
  by (induction xs rule: firstOccurrences.induct) auto

lemma set_firstOccurrences: "set (firstOccurrences xs) = set xs"
  by (induction xs rule: rev_induct) (auto simp: firstOccurrences_snoc)

lemma distinct_firstOccurrences: "distinct (firstOccurrences xs)"
  by (induction xs rule: rev_induct) (auto simp: firstOccurrences_snoc set_firstOccurrences)

lemma length_firstOccurrences: "length (firstOccurrences xs) = card (set xs)"
  using distinct_card [OF distinct_firstOccurrences, of xs] by (simp add: set_firstOccurrences)

lemma Ingest_window_starts:
  assumes d: "0 < d"
  shows "sorted (map Time ms) \<Longrightarrow>
    map Start (buckets (Ingest d ms)) =
      map (\<lambda>q. q * d) (firstOccurrences (map (windowIndexSpec d) ms))"
proof (induction ms rule: rev_induct)
  case Nil
  then show ?case by (simp add: Ingest_Nil)
next
  case (snoc m ms)
  from snoc.prems have srt: "sorted (map Time ms)" and le: "\<forall>t \<in> set ms. Time t \<le> Time m"
    by (auto simp: sorted_append)
  have IH: "map Start (buckets (Ingest d ms)) =
      map (\<lambda>q. q * d) (firstOccurrences (map (windowIndexSpec d) ms))"
    using snoc.IH srt by simp
  have key: "Truncate (Time m) d = windowIndexSpec d m * d"
    using d by (simp add: Truncate_index windowIndexSpec_def)
  show ?case
  proof (cases "ms = []")
    case True
    then show ?thesis
      by (simp add: Ingest_single Start_tally newBucket_def key)
  next
    case False
    then obtain bs b where bs: "buckets (Ingest d ms) = bs @ [b]"
      using Ingest_last [of ms d] by (cases "buckets (Ingest d ms)" rule: rev_cases) auto
    have st: "Start b = windowIndexSpec d (last ms) * d"
      using Ingest_last [OF False, of d] bs d by (simp add: Truncate_index windowIndexSpec_def)
    have below: "\<forall>t \<in> set ms. windowIndexSpec d t \<le> windowIndexSpec d (last ms)"
    proof
      fix t assume "t \<in> set ms"
      then have "Time t \<le> Time (last ms)"
        using srt by (simp add: sorted_le_last)
      then show "windowIndexSpec d t \<le> windowIndexSpec d (last ms)"
        using d by (simp add: windowIndexSpec_def zdiv_mono1)
    qed
    have le': "windowIndexSpec d (last ms) \<le> windowIndexSpec d m"
      using le False d by (simp add: windowIndexSpec_def zdiv_mono1)
    show ?thesis
    proof (cases "Start b = Truncate (Time m) d")
      case True
      then have "windowIndexSpec d m = windowIndexSpec d (last ms)"
        using st key d by simp
      then have "windowIndexSpec d m \<in> set (map (windowIndexSpec d) ms)"
        using False by (metis image_eqI last_in_set list.set_map)
      then show ?thesis
        using IH bs
        by (simp add: Ingest_snoc buckets_ProcessMessage_same [OF bs True] Start_tally
            firstOccurrences_snoc)
    next
      case neq: False
      then have "windowIndexSpec d m \<noteq> windowIndexSpec d (last ms)"
        using st key by auto
      with le' have "windowIndexSpec d (last ms) < windowIndexSpec d m" by simp
      with below have "windowIndexSpec d m \<notin> set (map (windowIndexSpec d) ms)"
        by auto
      then show ?thesis
        using IH bs
        by (simp add: Ingest_snoc buckets_ProcessMessage_new [OF bs neq] Start_tally
            firstOccurrences_snoc newBucket_def key)
    qed
  qed
qed

lemma buckets_ProcessMessage_same1:
  "buckets s = [b] \<Longrightarrow> Start b = Truncate (Time m) d \<Longrightarrow>
   buckets (ProcessMessage d m s) = [tally m (b\<lparr>Close := Price m\<rparr>)]"
  using buckets_ProcessMessage_same [of s "[]" b m d] by simp

lemma scenario_one_window:
  assumes "Truncate t1 d = Truncate t0 d" "Truncate t2 d = Truncate t0 d"
    "Truncate t3 d = Truncate t0 d"
  shows "buckets (Ingest d [\<lparr>Side = s0, Price = 100, Time = t0\<rparr>,
            \<lparr>Side = s1, Price = 102, Time = t1\<rparr>, \<lparr>Side = s2, Price = 98, Time = t2\<rparr>,
            \<lparr>Side = s3, Price = 101, Time = t3\<rparr>]) =
         [\<lparr>Open = 100, Close = 101, Max_b = 102, Min_b = 98, Trades = 4,
           Start = Truncate t0 d, Duration = d\<rparr>]"
proof -
  let ?m0 = "\<lparr>Side = s0, Price = 100, Time = t0\<rparr>"
  let ?m1 = "\<lparr>Side = s1, Price = 102, Time = t1\<rparr>"
  let ?m2 = "\<lparr>Side = s2, Price = 98, Time = t2\<rparr>"
  let ?m3 = "\<lparr>Side = s3, Price = 101, Time = t3\<rparr>"
  let ?k = "Truncate t0 d"
  have b0: "buckets (Ingest d [?m0]) =
      [\<lparr>Open = 100, Close = 100, Max_b = 100, Min_b = 100, Trades = 1, Start = ?k, Duration = d\<rparr>]"
    by (simp add: Ingest_single tally_def newBucket_def MaxFloat32_def int64_def)
  have b1: "buckets (Ingest d [?m0, ?m1]) =
      [\<lparr>Open = 100, Close = 102, Max_b = 102, Min_b = 100, Trades = 2, Start = ?k, Duration = d\<rparr>]"
    using buckets_ProcessMessage_same1 [OF b0, of ?m1 d] Ingest_snoc [of d "[?m0]" ?m1] assms(1)
    by (simp add: tally_def int64_def)
  have b2: "buckets (Ingest d [?m0, ?m1, ?m2]) =
      [\<lparr>Open = 100, Close = 98, Max_b = 102, Min_b = 98, Trades = 3, Start = ?k, Duration = d\<rparr>]"
    using buckets_ProcessMessage_same1 [OF b1, of ?m2 d] Ingest_snoc [of d "[?m0, ?m1]" ?m2] assms(2)
    by (simp add: tally_def int64_def)
  show ?thesis
    using buckets_ProcessMessage_same1 [OF b2, of ?m3 d] Ingest_snoc [of d "[?m0, ?m1, ?m2]" ?m3]
      assms(3)
    by (simp add: tally_def int64_def)
qed

lemma routeSpec_concat:
  "concat (map snd (routeSpec key gs m)) = concat (map snd gs) @ [m]"
proof (cases gs rule: rev_cases)
  case Nil
  then show ?thesis by (simp add: routeSpec_def)
next
  case (snoc gs' g)
  then show ?thesis by (simp add: routeSpec_def)
qed

lemma routedSpec_concat: "concat (map snd (routedSpec key ms)) = ms"
  by (induction ms rule: rev_induct) (simp_all add: routedSpec_Nil routedSpec_snoc routeSpec_concat)

lemma length_group_le: "g \<in> set gs \<Longrightarrow> length (snd g) \<le> length (concat (map snd gs))"
  by (induction gs) auto

lemma Ingest_bucket_group:
  assumes "b \<in> set (buckets (Ingest d ms))"
  obtains g where "summarises b g" and "length (snd g) \<le> length ms"
proof -
  from assms obtain i where i: "i < length (buckets (Ingest d ms))"
    and b: "buckets (Ingest d ms) ! i = b"
    by (auto simp: in_set_conv_nth)
  let ?gs = "routedSpec (windowStart d) ms"
  have all: "list_all2 summarises (buckets (Ingest d ms)) ?gs" by (rule Ingest_summarises)
  then have len: "length (buckets (Ingest d ms)) = length ?gs" by (rule list_all2_lengthD)
  have s: "summarises b (?gs ! i)" using list_all2_nthD [OF all i] b by simp
  have "?gs ! i \<in> set ?gs" using i len by simp
  then have "length (snd (?gs ! i)) \<le> length ms"
    using length_group_le [of "?gs ! i" ?gs] by (simp add: routedSpec_concat)
  with s show ?thesis by (rule that)
qed

lemma Ingest_bucket_seeds:
  assumes "b \<in> set (buckets (Ingest d ms))"
  shows "0 \<le> Max_b b \<and> Min_b b \<le> MaxFloat32"
proof -
  from assms obtain g where "summarises b g" by (rule Ingest_bucket_group)
  then have "Max_b b = Max (set (0 # map Price (snd g)))"
    and "Min_b b = Min (set (MaxFloat32 # map Price (snd g)))"
    by (simp_all add: summarises_def Let_def)
  then show ?thesis by simp
qed

lemma Ingest_bucket_Trades:
  assumes "b \<in> set (buckets (Ingest d ms))" and "length ms < 2 ^ 63"
  shows "1 \<le> Trades b \<and> Trades b \<le> int (length ms)"
proof -
  from assms(1) obtain g where s: "summarises b g" and le: "length (snd g) \<le> length ms"
    by (rule Ingest_bucket_group)
  from s have ne: "snd g \<noteq> []" and tr: "Trades b = int64 (int (length (snd g)))"
    by (simp_all add: summarises_def Let_def)
  have "int (length (snd g)) < 2 ^ 63" using le assms(2) by simp
  then have "Trades b = int (length (snd g))" using tr by (simp add: int64_id)
  moreover have "1 \<le> length (snd g)" using ne by (cases "snd g") simp_all
  ultimately show ?thesis using le by simp
qed

lemma candleBounds_Nil: "candleBounds [] = (MaxFloat32, 0)"
  by (simp add: candleBounds_def)

lemma candleBounds_snoc:
  "candleBounds (bs @ [b]) =
     (min (fst (candleBounds bs)) (Min_b b), max (snd (candleBounds bs)) (Max_b b))"
  by (simp add: candleBounds_def split_beta)

lemma candleBounds_eq:
  "candleBounds bs = (Min (set (MaxFloat32 # map Min_b bs)), Max (set (0 # map Max_b bs)))"
proof (induction bs rule: rev_induct)
  case Nil
  show ?case by (simp add: candleBounds_Nil)
next
  case (snoc b bs)
  show ?case
    using Min_sentinel_snoc [of MaxFloat32 "map Min_b bs" "Min_b b"]
      Max_sentinel_snoc [of 0 "map Max_b bs" "Max_b b"]
    by (simp add: candleBounds_snoc snoc.IH del: set_simps set_append)
qed

lemma candleBounds_Ingest:
  assumes "buckets (Ingest d ms) \<noteq> []"
  shows "candleBounds (buckets (Ingest d ms)) =
    (Min (Min_b ` set (buckets (Ingest d ms))), Max (Max_b ` set (buckets (Ingest d ms))))"
proof -
  let ?bs = "buckets (Ingest d ms)"
  have ne: "map Min_b ?bs \<noteq> []" "map Max_b ?bs \<noteq> []" using assms by simp_all
  have "\<forall>p \<in> set (map Min_b ?bs). p \<le> MaxFloat32" "\<forall>p \<in> set (map Max_b ?bs). 0 \<le> p"
    using Ingest_bucket_seeds [of _ d ms] by auto
  then show ?thesis
    using Min_sentinel_exact [OF ne(1), of MaxFloat32] Max_sentinel_exact [OF ne(2), of 0]
    by (simp add: candleBounds_eq del: set_simps)
qed

lemma volumeUpperBound_Nil: "volumeUpperBound rnd [] = 0"
  by (simp add: volumeUpperBound_def)

lemma volumeUpperBound_snoc:
  "volumeUpperBound rnd (bs @ [b]) = max (volumeUpperBound rnd bs) (rnd (of_int (Trades b)))"
  by (simp add: volumeUpperBound_def)

lemma volumeUpperBound_eq:
  "volumeUpperBound rnd bs = Max (set (0 # map (\<lambda>b. rnd (of_int (Trades b))) bs))"
proof (induction bs rule: rev_induct)
  case Nil
  show ?case by (simp add: volumeUpperBound_Nil)
next
  case (snoc b bs)
  show ?case
    using Max_sentinel_snoc [of 0 "map (\<lambda>b. rnd (of_int (Trades b))) bs" "rnd (of_int (Trades b))"]
    by (simp add: volumeUpperBound_snoc snoc.IH del: set_simps set_append)
qed

lemma float64_rounding_mono: "float64_rounding rnd \<Longrightarrow> a \<le> b \<Longrightarrow> rnd a \<le> rnd b"
  by (simp add: float64_rounding_def)

lemma float64_rounding_int:
  "float64_rounding rnd \<Longrightarrow> \<bar>n\<bar> \<le> 2 ^ 53 \<Longrightarrow> rnd (of_int n) = of_int n"
  by (simp add: float64_rounding_def)

lemma float64_rounding_0: "float64_rounding rnd \<Longrightarrow> rnd 0 = 0"
  using float64_rounding_int [of rnd 0] by simp

lemma float64_rounding_1: "float64_rounding rnd \<Longrightarrow> rnd 1 = 1"
  using float64_rounding_int [of rnd 1] by simp

lemma float64_rounding_numeral:
  "float64_rounding rnd \<Longrightarrow> numeral k \<le> (2 ^ 53 :: int) \<Longrightarrow> rnd (numeral k) = numeral k"
  using float64_rounding_int [of rnd "numeral k"] by simp

lemma float64_rounding_id: "float64_rounding (\<lambda>v. v)"
  by (simp add: float64_rounding_def)

lemma volumeUpperBound_Ingest:
  assumes r: "float64_rounding rnd" and len: "length ms < 2 ^ 63"
    and ne: "buckets (Ingest d ms) \<noteq> []"
  shows "volumeUpperBound rnd (buckets (Ingest d ms)) =
      rnd (of_int (Max (Trades ` set (buckets (Ingest d ms)))))"
    and "1 \<le> volumeUpperBound rnd (buckets (Ingest d ms))"
proof -
  let ?bs = "buckets (Ingest d ms)"
  let ?f = "\<lambda>n::int. rnd (of_int n)"
  have mono: "mono ?f"
  proof (rule monoI)
    fix x y :: int
    assume "x \<le> y"
    then show "?f x \<le> ?f y"
      using float64_rounding_mono [OF r, of "of_int x" "of_int y"] by simp
  qed
  have fin: "finite (Trades ` set ?bs)" "Trades ` set ?bs \<noteq> {}" using ne by simp_all
  have comm: "?f (Max (Trades ` set ?bs)) = Max (?f ` (Trades ` set ?bs))"
    using mono fin by (rule mono_Max_commute)
  have ge1: "\<forall>p \<in> set (map (\<lambda>b. ?f (Trades b)) ?bs). 1 \<le> p"
  proof
    fix p assume "p \<in> set (map (\<lambda>b. ?f (Trades b)) ?bs)"
    then obtain b where b: "b \<in> set ?bs" and p: "p = ?f (Trades b)" by auto
    have "1 \<le> Trades b" using Ingest_bucket_Trades [OF b len] by simp
    then have "rnd 1 \<le> rnd (of_int (Trades b))"
      using float64_rounding_mono [OF r, of 1 "of_int (Trades b)"] by simp
    then show "1 \<le> p" using p r by (simp add: float64_rounding_1)
  qed
  then have ge0: "\<forall>p \<in> set (map (\<lambda>b. ?f (Trades b)) ?bs). 0 \<le> p" by force
  have ne': "map (\<lambda>b. ?f (Trades b)) ?bs \<noteq> []" using ne by simp
  have eq: "volumeUpperBound rnd ?bs = Max (set (map (\<lambda>b. ?f (Trades b)) ?bs))"
    using Max_sentinel_exact [OF ne' ge0] by (simp add: volumeUpperBound_eq del: set_simps)
  then show "volumeUpperBound rnd ?bs = rnd (of_int (Max (Trades ` set ?bs)))"
    using comm by (simp add: image_image)
  have "Max (set (map (\<lambda>b. ?f (Trades b)) ?bs)) \<in> set (map (\<lambda>b. ?f (Trades b)) ?bs)"
    using ne' by (intro Max_in) simp_all
  then have "1 \<le> Max (set (map (\<lambda>b. ?f (Trades b)) ?bs))" using ge1 by blast
  then show "1 \<le> volumeUpperBound rnd ?bs" by (simp only: eq)
qed

section \<open>The claims\<close>

text \<open>
  C1 (amended).  After every ingestion step, that is for the state after the first \<open>n\<close>
  trades of any sequence, the buckets are, one for one and in order, summaries of the
  groups of trades routed into them: a bucket's open is the price of the first trade
  routed into it, its close the price of the latest, its max the larger of 0 and the
  running maximum, its min the smaller of \<open>MaxFloat32\<close> and the running minimum, so
  exactly the running maximum and minimum when the prices routed into it lie in
  \<open>[0, MaxFloat32]\<close>.  In particular trades at the prices 100, 102, 98, 101 that fall in
  one candle window give one bucket with open 100, close 101, max 102, min 98 and 4
  trades.
\<close>

theorem bucket_summaries:
  "list_all2 summarises (buckets (Ingest d (take n ms))) (routedSpec (windowStart d) (take n ms))
   \<and> (Truncate t1 d = Truncate t0 d \<and> Truncate t2 d = Truncate t0 d \<and>
        Truncate t3 d = Truncate t0 d \<longrightarrow>
      buckets (Ingest d [\<lparr>Side = s0, Price = 100, Time = t0\<rparr>,
            \<lparr>Side = s1, Price = 102, Time = t1\<rparr>, \<lparr>Side = s2, Price = 98, Time = t2\<rparr>,
            \<lparr>Side = s3, Price = 101, Time = t3\<rparr>]) =
         [\<lparr>Open = 100, Close = 101, Max_b = 102, Min_b = 98, Trades = 4,
           Start = Truncate t0 d, Duration = d\<rparr>])"
  using Ingest_summarises [of d "take n ms"] scenario_one_window [of t1 d t0 t2 t3 s0 s1 s2 s3]
  by blast

theorem bucket_summaries_witness:
  "Truncate 1 10 = Truncate 0 10 \<and> Truncate 2 10 = Truncate 0 10 \<and> Truncate 3 10 = Truncate 0 10
   \<and> 0 \<le> (98::real) \<and> 102 \<le> MaxFloat32
   \<and> routedSpec (windowStart 10)
        [\<lparr>Side = ''buy'', Price = 100, Time = 0\<rparr>, \<lparr>Side = ''sell'', Price = 102, Time = 1\<rparr>,
         \<lparr>Side = ''sell'', Price = 98, Time = 2\<rparr>, \<lparr>Side = ''buy'', Price = 101, Time = 3\<rparr>] =
       [(0, [\<lparr>Side = ''buy'', Price = 100, Time = 0\<rparr>, \<lparr>Side = ''sell'', Price = 102, Time = 1\<rparr>,
         \<lparr>Side = ''sell'', Price = 98, Time = 2\<rparr>, \<lparr>Side = ''buy'', Price = 101, Time = 3\<rparr>])]
   \<and> buckets (Ingest 10
        [\<lparr>Side = ''buy'', Price = 100, Time = 0\<rparr>, \<lparr>Side = ''sell'', Price = 102, Time = 1\<rparr>,
         \<lparr>Side = ''sell'', Price = 98, Time = 2\<rparr>, \<lparr>Side = ''buy'', Price = 101, Time = 3\<rparr>]) =
       [\<lparr>Open = 100, Close = 101, Max_b = 102, Min_b = 98, Trades = 4, Start = 0, Duration = 10\<rparr>]"
  using bucket_summaries [of 10 4
        "[\<lparr>Side = ''buy'', Price = 100, Time = 0\<rparr>, \<lparr>Side = ''sell'', Price = 102, Time = 1\<rparr>,
         \<lparr>Side = ''sell'', Price = 98, Time = 2\<rparr>, \<lparr>Side = ''buy'', Price = 101, Time = 3\<rparr>]"
        1 0 2 3 "''buy''" "''sell''" "''sell''" "''buy''"]
  by (simp add: Truncate_def MaxFloat32_def routedSpec_def routeSpec_def windowStart_def)

text \<open>
  C1 as stated fails: a single trade at the price \<open>4 * 10\<^sup>3\<^sup>8\<close>, a positive \<open>float64\<close>
  above \<open>MaxFloat32\<close>, leaves the minimum of its bucket at the seed.
\<close>

theorem minimum_above_MaxFloat32_counterexample:
  "buckets (Ingest 900000000000 [\<lparr>Side = ''buy'', Price = 4 * 10 ^ 38, Time = 0\<rparr>]) =
     [\<lparr>Open = 4 * 10 ^ 38, Close = 4 * 10 ^ 38, Max_b = 4 * 10 ^ 38, Min_b = MaxFloat32,
       Trades = 1, Start = 0, Duration = 900000000000\<rparr>]
   \<and> routedSpec (windowStart 900000000000) [\<lparr>Side = ''buy'', Price = 4 * 10 ^ 38, Time = 0\<rparr>] =
     [(0, [\<lparr>Side = ''buy'', Price = 4 * 10 ^ 38, Time = 0\<rparr>])]
   \<and> MaxFloat32 \<noteq> Min (set [4 * 10 ^ 38])"
  by (simp add: Ingest_eval routedSpec_def routeSpec_def windowStart_def)

text \<open>
  C2 (amended).  For a positive window duration and any trade sequence with non-decreasing
  timestamps, the number of buckets equals the number of distinct values of
  \<open>floor(timestamp / windowDuration)\<close> encountered, and the buckets appear in the order of
  first occurrence of those values, the \<open>windowStart\<close> of each being the value times
  \<open>windowDuration\<close>.
\<close>

theorem bucket_count_and_order:
  assumes "0 < d" and "sorted (map Time ms)"
  shows "length (buckets (Ingest d ms)) = card (windowIndexSpec d ` set ms) \<and>
         map Start (buckets (Ingest d ms)) =
           map (\<lambda>q. q * d) (firstOccurrences (map (windowIndexSpec d) ms))"
proof -
  have starts: "map Start (buckets (Ingest d ms)) =
      map (\<lambda>q. q * d) (firstOccurrences (map (windowIndexSpec d) ms))"
    using assms by (rule Ingest_window_starts)
  have "length (buckets (Ingest d ms)) = length (map Start (buckets (Ingest d ms)))"
    by simp
  also have "\<dots> = length (firstOccurrences (map (windowIndexSpec d) ms))"
    by (simp only: starts length_map)
  also have "\<dots> = card (windowIndexSpec d ` set ms)"
    by (simp add: length_firstOccurrences)
  finally show ?thesis using starts by simp
qed

theorem bucket_count_and_order_witness:
  "(0::int) < 10 \<and>
   sorted (map Time [\<lparr>Side = ''buy'', Price = 100, Time = 3\<rparr>,
      \<lparr>Side = ''sell'', Price = 102, Time = 7\<rparr>, \<lparr>Side = ''buy'', Price = 98, Time = 25\<rparr>]) \<and>
   length (buckets (Ingest 10 [\<lparr>Side = ''buy'', Price = 100, Time = 3\<rparr>,
      \<lparr>Side = ''sell'', Price = 102, Time = 7\<rparr>, \<lparr>Side = ''buy'', Price = 98, Time = 25\<rparr>])) = 2 \<and>
   map Start (buckets (Ingest 10 [\<lparr>Side = ''buy'', Price = 100, Time = 3\<rparr>,
      \<lparr>Side = ''sell'', Price = 102, Time = 7\<rparr>, \<lparr>Side = ''buy'', Price = 98, Time = 25\<rparr>])) = [0, 20]"
proof -
  let ?ms = "[\<lparr>Side = ''buy'', Price = 100, Time = 3\<rparr>,
      \<lparr>Side = ''sell'', Price = 102, Time = 7\<rparr>, \<lparr>Side = ''buy'', Price = 98, Time = 25\<rparr>]"
  have d: "(0::int) < 10" by simp
  have s: "sorted (map Time ?ms)" by simp
  have "firstOccurrences (map (windowIndexSpec 10) ?ms) = [0, 2]"
    by (simp add: windowIndexSpec_def)
  then show ?thesis
    using bucket_count_and_order [OF d s] d s by (simp add: windowIndexSpec_def)
qed

text \<open>
  C2 as stated fails for a window duration that is not positive, where \<open>Truncate\<close> leaves
  the instant as it is: with \<open>candle_size\<close> at \<open>-2ns\<close>, the instants 5 and 6 give two
  buckets, and \<open>floor(timestamp / windowDuration)\<close> is \<open>-3\<close> for both.
\<close>

theorem nonpositive_window_counterexample:
  "sorted (map Time [\<lparr>Side = ''buy'', Price = 100, Time = 5\<rparr>,
      \<lparr>Side = ''buy'', Price = 100, Time = 6\<rparr>]) \<and>
   length (buckets (Ingest (- 2) [\<lparr>Side = ''buy'', Price = 100, Time = 5\<rparr>,
      \<lparr>Side = ''buy'', Price = 100, Time = 6\<rparr>])) = 2 \<and>
   card (windowIndexSpec (- 2) ` set [\<lparr>Side = ''buy'', Price = 100, Time = 5\<rparr>,
      \<lparr>Side = ''buy'', Price = 100, Time = 6\<rparr>]) = 1"
  by (simp add: Ingest_eval windowIndexSpec_def)

text \<open>
  C3 (amended).  For every sequence of trades, an ingestion step either appends one bucket
  and leaves every bucket there was as it is, or changes the last bucket alone, which
  keeps its place and its \<open>windowStart\<close>: no bucket is removed or reordered.  When the
  timestamps are non-decreasing, the bucket sequence is at all times strictly increasing
  by \<open>windowStart\<close>.
\<close>

theorem append_only_and_increasing:
  "buckets (Ingest d (ms @ [m])) \<noteq> [] \<and>
   (butlast (buckets (Ingest d (ms @ [m]))) = buckets (Ingest d ms) \<or>
    (buckets (Ingest d ms) \<noteq> [] \<and>
     butlast (buckets (Ingest d (ms @ [m]))) = butlast (buckets (Ingest d ms)) \<and>
     length (buckets (Ingest d (ms @ [m]))) = length (buckets (Ingest d ms)) \<and>
     Start (last (buckets (Ingest d (ms @ [m])))) = Start (last (buckets (Ingest d ms))))) \<and>
   (sorted (map Time ms) \<longrightarrow> sorted_wrt (<) (map Start (buckets (Ingest d (take n ms)))))"
proof -
  have "sorted (map Time ms) \<Longrightarrow> sorted (map Time (take n ms))"
    using sorted_wrt_take [of "(\<le>)" "map Time ms" n] by (simp add: take_map)
  then show ?thesis
    using ProcessMessage_shape [of d m "Ingest d ms"] ProcessMessage_last [of d m "Ingest d ms"]
      Ingest_strictly_increasing [of "take n ms" d]
    by (simp only: Ingest_snoc) blast
qed

theorem append_only_and_increasing_witness:
  "sorted (map Time [\<lparr>Side = ''buy'', Price = 100, Time = 3\<rparr>,
      \<lparr>Side = ''sell'', Price = 102, Time = 25\<rparr>]) \<and>
   map Start (buckets (Ingest 10 (take 2 [\<lparr>Side = ''buy'', Price = 100, Time = 3\<rparr>,
      \<lparr>Side = ''sell'', Price = 102, Time = 25\<rparr>]))) = [0, 20] \<and>
   sorted_wrt (<) (map Start (buckets (Ingest 10 (take 2 [\<lparr>Side = ''buy'', Price = 100, Time = 3\<rparr>,
      \<lparr>Side = ''sell'', Price = 102, Time = 25\<rparr>]))))"
proof -
  let ?ms = "[\<lparr>Side = ''buy'', Price = 100, Time = 3\<rparr>, \<lparr>Side = ''sell'', Price = 102, Time = 25\<rparr>]"
  have s: "sorted (map Time ?ms)" by simp
  have "map Start (buckets (Ingest 10 (take 2 ?ms))) = [0, 20]"
    by (simp add: Ingest_eval)
  then show ?thesis
    using append_only_and_increasing [of 10 ?ms "\<lparr>Side = ''buy'', Price = 1, Time = 30\<rparr>" 2] s
    by simp
qed

text \<open>
  C3 as stated, with no precondition on timestamps, fails: a trade at instant 20 followed
  by one at instant 0, with a window of 10, gives the window starts 20, 0.
\<close>

theorem out_of_order_counterexample:
  "map Start (buckets (Ingest 10 [\<lparr>Side = ''buy'', Price = 100, Time = 20\<rparr>,
      \<lparr>Side = ''sell'', Price = 102, Time = 0\<rparr>])) = [20, 0] \<and>
   \<not> sorted_wrt (<) [20, 0 :: int]"
  by (simp add: Ingest_eval)

subsection \<open>The panels\<close>

text \<open>The rows of a panel show the latest \<open>h - 1\<close> elements, the latest first.\<close>

lemma visit_eq:
  "- 1 \<le> j \<Longrightarrow> j < int (length xs) \<Longrightarrow>
   map snd (visit h xs line j) = take (nat (h - line)) (rev (take (nat (j + 1)) xs))"
proof (induction h xs line j rule: visit.induct)
  case (1 h xs line j)
  show ?case
  proof (cases "j \<ge> 0 \<and> line < h")
    case True
    then have IH: "map snd (visit h xs (line + 1) (j - 1)) =
        take (nat (h - (line + 1))) (rev (take (nat (j - 1 + 1)) xs))"
      using "1.IH" "1.prems" by simp
    have k: "nat (j + 1) = Suc (nat j)" "nat j < length xs" using True "1.prems" by auto
    have t: "take (Suc (nat j)) xs = take (nat j) xs @ [xs ! nat j]"
      using k(2) by (rule take_Suc_conv_app_nth)
    have n: "nat (h - line) = Suc (nat (h - (line + 1)))" using True by linarith
    show ?thesis
      using True IH by (subst visit.simps) (simp add: k(1) t n del: visit.simps)
  next
    case False
    then have "j = - 1 \<or> h \<le> line" using "1.prems" by auto
    then show ?thesis
      using False by (subst visit.simps) auto
  qed
qed

lemma visibleBuckets_eq: "visibleBuckets f bs = take (nat (frame_h f - 1)) (rev bs)"
  using visit_eq [of "int (length bs) - 1" bs "frame_h f" 1]
  by (simp add: visibleBuckets_def visibleRows_def)

lemma DrawCandles_bounds:
  "(lowerBound (DrawCandles rnd f bs), upperBound (DrawCandles rnd f bs)) =
     padBounds rnd (candleBounds bs)"
  by (simp add: DrawCandles_def Let_def)

lemma volumeMax_DrawVolume: "volumeMax (DrawVolume rnd f bs) = volumeUpperBound rnd bs"
  by (simp add: DrawVolume_def Let_def)

text \<open>
  C4 (amended).  For every render with a non-empty bucket sequence, whatever the frames,
  the bounds are computed over all the buckets of the sequence, visible or not: before
  the padding, the candlestick panel's \<open>lowerBound\<close> is the minimum of \<open>bucket.min\<close> and
  its \<open>upperBound\<close> the maximum of \<open>bucket.max\<close> over all buckets, and the volume panel's
  \<open>volumeMax\<close> is the \<open>float64\<close> of the maximum \<open>tradeCount\<close> over all buckets.  (The
  history slice holds every trade ingested, so their number is below \<open>2\<^sup>6\<^sup>3\<close>.)
\<close>

theorem bounds_over_all_buckets:
  assumes "float64_rounding rnd" and "length ms < 2 ^ 63" and "buckets (Ingest d ms) \<noteq> []"
  shows "(lowerBound (DrawCandles rnd f (buckets (Ingest d ms))),
          upperBound (DrawCandles rnd f (buckets (Ingest d ms)))) =
           padBounds rnd (Min (Min_b ` set (buckets (Ingest d ms))),
                          Max (Max_b ` set (buckets (Ingest d ms)))) \<and>
         volumeMax (DrawVolume rnd f' (buckets (Ingest d ms))) =
           rnd (of_int (Max (Trades ` set (buckets (Ingest d ms)))))"
  using candleBounds_Ingest [OF assms(3)] volumeUpperBound_Ingest(1) [OF assms]
  by (simp add: DrawCandles_bounds volumeMax_DrawVolume)

lemma three_trades:
  "buckets (Ingest 10 [\<lparr>Side = ''buy'', Price = 10, Time = 0\<rparr>,
      \<lparr>Side = ''buy'', Price = 900, Time = 1\<rparr>, \<lparr>Side = ''sell'', Price = 500, Time = 10\<rparr>]) =
   [\<lparr>Open = 10, Close = 900, Max_b = 900, Min_b = 10, Trades = 2, Start = 0, Duration = 10\<rparr>,
    \<lparr>Open = 500, Close = 500, Max_b = 500, Min_b = 500, Trades = 1, Start = 10, Duration = 10\<rparr>]"
  by (simp add: Ingest_eval)

theorem bounds_over_all_buckets_witness:
  "float64_rounding (\<lambda>v. v) \<and>
   length [\<lparr>Side = ''buy'', Price = 10, Time = 0\<rparr>,
      \<lparr>Side = ''buy'', Price = 900, Time = 1\<rparr>, \<lparr>Side = ''sell'', Price = 500, Time = 10\<rparr>] < 2 ^ 63 \<and>
   buckets (Ingest 10 [\<lparr>Side = ''buy'', Price = 10, Time = 0\<rparr>,
      \<lparr>Side = ''buy'', Price = 900, Time = 1\<rparr>, \<lparr>Side = ''sell'', Price = 500, Time = 10\<rparr>]) \<noteq> [] \<and>
   (lowerBound (DrawCandles (\<lambda>v. v) \<lparr>frame_x = 12, frame_y = 1, frame_w = 52, frame_h = 2\<rparr>
      (buckets (Ingest 10 [\<lparr>Side = ''buy'', Price = 10, Time = 0\<rparr>,
      \<lparr>Side = ''buy'', Price = 900, Time = 1\<rparr>, \<lparr>Side = ''sell'', Price = 500, Time = 10\<rparr>]))),
    upperBound (DrawCandles (\<lambda>v. v) \<lparr>frame_x = 12, frame_y = 1, frame_w = 52, frame_h = 2\<rparr>
      (buckets (Ingest 10 [\<lparr>Side = ''buy'', Price = 10, Time = 0\<rparr>,
      \<lparr>Side = ''buy'', Price = 900, Time = 1\<rparr>, \<lparr>Side = ''sell'', Price = 500, Time = 10\<rparr>])))) =
     (10, 900) \<and>
   volumeMax (DrawVolume (\<lambda>v. v) \<lparr>frame_x = 0, frame_y = 1, frame_w = 11, frame_h = 2\<rparr>
      (buckets (Ingest 10 [\<lparr>Side = ''buy'', Price = 10, Time = 0\<rparr>,
      \<lparr>Side = ''buy'', Price = 900, Time = 1\<rparr>, \<lparr>Side = ''sell'', Price = 500, Time = 10\<rparr>]))) = 2"
proof -
  let ?ms = "[\<lparr>Side = ''buy'', Price = 10, Time = 0\<rparr>,
      \<lparr>Side = ''buy'', Price = 900, Time = 1\<rparr>, \<lparr>Side = ''sell'', Price = 500, Time = 10\<rparr>]"
  have r: "float64_rounding (\<lambda>v. v)" by (rule float64_rounding_id)
  have l: "length ?ms < 2 ^ 63" by simp
  have n: "buckets (Ingest 10 ?ms) \<noteq> []" by (simp add: three_trades)
  show ?thesis
    using bounds_over_all_buckets [OF r l n,
        of "\<lparr>frame_x = 12, frame_y = 1, frame_w = 52, frame_h = 2\<rparr>"
           "\<lparr>frame_x = 0, frame_y = 1, frame_w = 11, frame_h = 2\<rparr>"] r
    by (simp add: three_trades padBounds_def)
qed

text \<open>
  C4 as stated fails: with a frame of height 2 only the latest bucket is visible, and the
  older bucket, off screen, sets \<open>lowerBound\<close>, \<open>upperBound\<close> and \<open>volumeMax\<close>.
\<close>

theorem offscreen_bucket_counterexample:
  "visibleBuckets \<lparr>frame_x = 12, frame_y = 1, frame_w = 52, frame_h = 2\<rparr>
     (buckets (Ingest 10 [\<lparr>Side = ''buy'', Price = 10, Time = 0\<rparr>,
      \<lparr>Side = ''buy'', Price = 900, Time = 1\<rparr>, \<lparr>Side = ''sell'', Price = 500, Time = 10\<rparr>])) =
     [\<lparr>Open = 500, Close = 500, Max_b = 500, Min_b = 500, Trades = 1, Start = 10, Duration = 10\<rparr>] \<and>
   candleBounds (buckets (Ingest 10 [\<lparr>Side = ''buy'', Price = 10, Time = 0\<rparr>,
      \<lparr>Side = ''buy'', Price = 900, Time = 1\<rparr>, \<lparr>Side = ''sell'', Price = 500, Time = 10\<rparr>])) =
     (10, 900) \<and>
   lowerBound (DrawCandles (\<lambda>v. v) \<lparr>frame_x = 12, frame_y = 1, frame_w = 52, frame_h = 2\<rparr>
     (buckets (Ingest 10 [\<lparr>Side = ''buy'', Price = 10, Time = 0\<rparr>,
      \<lparr>Side = ''buy'', Price = 900, Time = 1\<rparr>, \<lparr>Side = ''sell'', Price = 500, Time = 10\<rparr>]))) = 10 \<and>
   upperBound (DrawCandles (\<lambda>v. v) \<lparr>frame_x = 12, frame_y = 1, frame_w = 52, frame_h = 2\<rparr>
     (buckets (Ingest 10 [\<lparr>Side = ''buy'', Price = 10, Time = 0\<rparr>,
      \<lparr>Side = ''buy'', Price = 900, Time = 1\<rparr>, \<lparr>Side = ''sell'', Price = 500, Time = 10\<rparr>]))) = 900 \<and>
   volumeMax (DrawVolume (\<lambda>v. v) \<lparr>frame_x = 12, frame_y = 1, frame_w = 52, frame_h = 2\<rparr>
     (buckets (Ingest 10 [\<lparr>Side = ''buy'', Price = 10, Time = 0\<rparr>,
      \<lparr>Side = ''buy'', Price = 900, Time = 1\<rparr>, \<lparr>Side = ''sell'', Price = 500, Time = 10\<rparr>]))) = 2 \<and>
   lowerBound (DrawCandles (\<lambda>v. v) \<lparr>frame_x = 12, frame_y = 1, frame_w = 52, frame_h = 2\<rparr>
     (buckets (Ingest 10 [\<lparr>Side = ''buy'', Price = 10, Time = 0\<rparr>,
      \<lparr>Side = ''buy'', Price = 900, Time = 1\<rparr>, \<lparr>Side = ''sell'', Price = 500, Time = 10\<rparr>]))) \<noteq>
     Min (Min_b ` set (visibleBuckets \<lparr>frame_x = 12, frame_y = 1, frame_w = 52, frame_h = 2\<rparr>
     (buckets (Ingest 10 [\<lparr>Side = ''buy'', Price = 10, Time = 0\<rparr>,
      \<lparr>Side = ''buy'', Price = 900, Time = 1\<rparr>, \<lparr>Side = ''sell'', Price = 500, Time = 10\<rparr>])))) \<and>
   upperBound (DrawCandles (\<lambda>v. v) \<lparr>frame_x = 12, frame_y = 1, frame_w = 52, frame_h = 2\<rparr>
     (buckets (Ingest 10 [\<lparr>Side = ''buy'', Price = 10, Time = 0\<rparr>,
      \<lparr>Side = ''buy'', Price = 900, Time = 1\<rparr>, \<lparr>Side = ''sell'', Price = 500, Time = 10\<rparr>]))) \<noteq>
     Max (Max_b ` set (visibleBuckets \<lparr>frame_x = 12, frame_y = 1, frame_w = 52, frame_h = 2\<rparr>
     (buckets (Ingest 10 [\<lparr>Side = ''buy'', Price = 10, Time = 0\<rparr>,
      \<lparr>Side = ''buy'', Price = 900, Time = 1\<rparr>, \<lparr>Side = ''sell'', Price = 500, Time = 10\<rparr>])))) \<and>
   volumeMax (DrawVolume (\<lambda>v. v) \<lparr>frame_x = 12, frame_y = 1, frame_w = 52, frame_h = 2\<rparr>
     (buckets (Ingest 10 [\<lparr>Side = ''buy'', Price = 10, Time = 0\<rparr>,
      \<lparr>Side = ''buy'', Price = 900, Time = 1\<rparr>, \<lparr>Side = ''sell'', Price = 500, Time = 10\<rparr>]))) \<noteq>
     real_of_int (Max (Trades ` set (visibleBuckets \<lparr>frame_x = 12, frame_y = 1, frame_w = 52, frame_h = 2\<rparr>
     (buckets (Ingest 10 [\<lparr>Side = ''buy'', Price = 10, Time = 0\<rparr>,
      \<lparr>Side = ''buy'', Price = 900, Time = 1\<rparr>, \<lparr>Side = ''sell'', Price = 500, Time = 10\<rparr>])))))"
  by (simp add: three_trades visibleBuckets_def visibleRows_def visit.simps DrawCandles_def
      DrawVolume_def Let_def candleBounds_def padBounds_def volumeUpperBound_def MaxFloat32_def)

lemma column_at_lower:
  assumes r: "float64_rounding rnd" and s: "priceSpread \<noteq> 0"
  shows "column rnd lb priceSpread w lb = Inr 1"
  using s by (simp add: column_def float64_rounding_0 [OF r] float64_rounding_1 [OF r])

lemma column_at_upper:
  assumes r: "float64_rounding rnd" and w: "\<bar>w\<bar> \<le> 2 ^ 52"
    and s: "rnd (ub - lb) \<noteq> 0"
  shows "column rnd lb (rnd (ub - lb)) w ub = Inr (of_int (w - 1))"
proof -
  have i: "int64 (w - 2) = w - 2" using w by (intro int64_id) simp_all
  have w2: "rnd (real_of_int w - 2) = real_of_int w - 2"
    using float64_rounding_int [OF r, of "w - 2"] w by simp
  have w1: "rnd (real_of_int w - 1) = real_of_int w - 1"
    using float64_rounding_int [OF r, of "w - 1"] w by simp
  have "rnd (1 + rnd (rnd (rnd (ub - lb) / rnd (ub - lb)) * rnd (of_int (int64 (w - 2))))) =
      real_of_int w - 1"
    using s by (simp add: i w2 w1 float64_rounding_1 [OF r])
  then show ?thesis using s by (simp add: column_def)
qed

text \<open>
  C7.  For any bucket set, when the price spread (\<open>upperBound - lowerBound\<close> after any
  padding, as \<open>DrawCandles\<close> computes it) is strictly positive, the column mapping gives 1
  at \<open>lowerBound\<close> and \<open>panelWidth - 1\<close> at \<open>upperBound\<close>, exactly, in \<open>float64\<close> arithmetic,
  and the conversions to \<open>int\<close> keep these values.  The width is that of a terminal, far
  below \<open>2\<^sup>5\<^sup>2\<close>.
\<close>

theorem column_at_bounds:
  assumes "float64_rounding rnd" and "\<bar>frame_w f\<bar> \<le> 2 ^ 52"
    and "priceSpread = rnd (upperBound (DrawCandles rnd f bs) - lowerBound (DrawCandles rnd f bs))"
    and "0 < priceSpread"
  shows "column rnd (lowerBound (DrawCandles rnd f bs)) priceSpread (frame_w f)
           (lowerBound (DrawCandles rnd f bs)) = Inr 1 \<and>
         column rnd (lowerBound (DrawCandles rnd f bs)) priceSpread (frame_w f)
           (upperBound (DrawCandles rnd f bs)) = Inr (of_int (frame_w f - 1)) \<and>
         toInt 1 = Inr 1 \<and> toInt (of_int (frame_w f - 1)) = Inr (frame_w f - 1)"
proof -
  have ne: "priceSpread \<noteq> 0" using assms(4) by simp
  have t: "toInt (of_int (frame_w f - 1)) = Inr (frame_w f - 1)"
    using assms(2) by (auto simp: toInt_def Let_def)
  show ?thesis
    using column_at_lower [OF assms(1) ne] column_at_upper [OF assms(1,2)] ne assms(3) t
    by (simp add: toInt_def)
qed

theorem column_at_bounds_witness:
  "float64_rounding (\<lambda>v. v) \<and>
   \<bar>frame_w \<lparr>frame_x = 12, frame_y = 1, frame_w = 52, frame_h = 22\<rparr>\<bar> \<le> 2 ^ 52 \<and>
   lowerBound (DrawCandles (\<lambda>v. v) \<lparr>frame_x = 12, frame_y = 1, frame_w = 52, frame_h = 22\<rparr>
     [\<lparr>Open = 100, Close = 150, Max_b = 198, Min_b = 98, Trades = 3, Start = 0, Duration = 10\<rparr>]) = 98 \<and>
   upperBound (DrawCandles (\<lambda>v. v) \<lparr>frame_x = 12, frame_y = 1, frame_w = 52, frame_h = 22\<rparr>
     [\<lparr>Open = 100, Close = 150, Max_b = 198, Min_b = 98, Trades = 3, Start = 0, Duration = 10\<rparr>]) = 198 \<and>
   (0::real) < 100 \<and>
   column (\<lambda>v. v) 98 100 52 98 = Inr 1 \<and> column (\<lambda>v. v) 98 100 52 198 = Inr 51"
proof -
  let ?f = "\<lparr>frame_x = 12, frame_y = 1, frame_w = 52, frame_h = 22\<rparr>"
  let ?bs = "[\<lparr>Open = 100, Close = 150, Max_b = 198, Min_b = 98, Trades = 3, Start = 0, Duration = 10\<rparr>]"
  have r: "float64_rounding (\<lambda>v. v)" by (rule float64_rounding_id)
  have w: "\<bar>frame_w ?f\<bar> \<le> 2 ^ 52" by simp
  have b: "lowerBound (DrawCandles (\<lambda>v. v) ?f ?bs) = 98" "upperBound (DrawCandles (\<lambda>v. v) ?f ?bs) = 198"
    by (simp_all add: DrawCandles_def Let_def candleBounds_def padBounds_def MaxFloat32_def)
  have s: "(100::real) = upperBound (DrawCandles (\<lambda>v. v) ?f ?bs) - lowerBound (DrawCandles (\<lambda>v. v) ?f ?bs)"
    by (simp only: b)
  have p: "(0::real) < 100" by simp
  show ?thesis
    using column_at_bounds [OF r w s p] r b by simp
qed

text \<open>
  C8.  When \<open>DrawCandles\<close> renders the candlestick panel, if \<open>upperBound - lowerBound\<close>
  (the \<open>float64\<close> difference) is below 100 then \<open>lowerBound\<close> is decreased by 50 and
  \<open>upperBound\<close> increased by 50 before scaling, and otherwise, so whenever the exact
  difference is at least 100, the bounds are left unchanged; a bucket with min 98 and max
  198 gets no padding, and one with min 100 and max 120 gets the bounds 50 and 170.
\<close>

theorem padding_below_100:
  assumes "float64_rounding rnd"
  shows "(lowerBound (DrawCandles rnd f bs), upperBound (DrawCandles rnd f bs)) =
           (if rnd (snd (candleBounds bs) - fst (candleBounds bs)) < 100
            then (rnd (fst (candleBounds bs) - 50), rnd (snd (candleBounds bs) + 50))
            else candleBounds bs) \<and>
         (100 \<le> snd (candleBounds bs) - fst (candleBounds bs) \<longrightarrow>
            (lowerBound (DrawCandles rnd f bs), upperBound (DrawCandles rnd f bs)) =
              candleBounds bs) \<and>
         (Min_b b = 98 \<and> Max_b b = 198 \<longrightarrow>
            (lowerBound (DrawCandles rnd f [b]), upperBound (DrawCandles rnd f [b])) = (98, 198)) \<and>
         (Min_b b' = 100 \<and> Max_b b' = 120 \<longrightarrow>
            (lowerBound (DrawCandles rnd f [b']), upperBound (DrawCandles rnd f [b'])) = (50, 170))"
proof -
  note r = assms
  have n: "rnd 20 = 20" "rnd 50 = 50" "rnd 100 = 100" "rnd 170 = 170"
    by (simp_all add: float64_rounding_numeral [OF r])
  have general: "(lowerBound (DrawCandles rnd f bs), upperBound (DrawCandles rnd f bs)) =
           (if rnd (snd (candleBounds bs) - fst (candleBounds bs)) < 100
            then (rnd (fst (candleBounds bs) - 50), rnd (snd (candleBounds bs) + 50))
            else candleBounds bs)" for bs
    by (simp add: DrawCandles_bounds padBounds_def)
  have wide: "(lowerBound (DrawCandles rnd f bs), upperBound (DrawCandles rnd f bs)) =
      candleBounds bs" if "100 \<le> snd (candleBounds bs) - fst (candleBounds bs)"
  proof -
    have "rnd 100 \<le> rnd (snd (candleBounds bs) - fst (candleBounds bs))"
      using that by (rule float64_rounding_mono [OF r])
    then show ?thesis by (simp add: general n)
  qed
  have s1: "(lowerBound (DrawCandles rnd f [b]), upperBound (DrawCandles rnd f [b])) = (98, 198)"
    if "Min_b b = 98 \<and> Max_b b = 198"
    using that by (simp add: general candleBounds_def MaxFloat32_def n)
  have s2: "(lowerBound (DrawCandles rnd f [b']), upperBound (DrawCandles rnd f [b'])) = (50, 170)"
    if "Min_b b' = 100 \<and> Max_b b' = 120"
    using that by (simp add: general candleBounds_def MaxFloat32_def n)
  show ?thesis using general [of bs] wide s1 s2 by blast
qed

theorem padding_below_100_witness:
  "float64_rounding (\<lambda>v. v) \<and>
   (100::real) \<le> 198 - 98 \<and>
   (lowerBound (DrawCandles (\<lambda>v. v) \<lparr>frame_x = 12, frame_y = 1, frame_w = 52, frame_h = 22\<rparr>
      [\<lparr>Open = 100, Close = 150, Max_b = 198, Min_b = 98, Trades = 3, Start = 0, Duration = 10\<rparr>]),
    upperBound (DrawCandles (\<lambda>v. v) \<lparr>frame_x = 12, frame_y = 1, frame_w = 52, frame_h = 22\<rparr>
      [\<lparr>Open = 100, Close = 150, Max_b = 198, Min_b = 98, Trades = 3, Start = 0, Duration = 10\<rparr>])) =
     (98, 198) \<and>
   (lowerBound (DrawCandles (\<lambda>v. v) \<lparr>frame_x = 12, frame_y = 1, frame_w = 52, frame_h = 22\<rparr>
      [\<lparr>Open = 100, Close = 110, Max_b = 120, Min_b = 100, Trades = 3, Start = 0, Duration = 10\<rparr>]),
    upperBound (DrawCandles (\<lambda>v. v) \<lparr>frame_x = 12, frame_y = 1, frame_w = 52, frame_h = 22\<rparr>
      [\<lparr>Open = 100, Close = 110, Max_b = 120, Min_b = 100, Trades = 3, Start = 0, Duration = 10\<rparr>])) =
     (50, 170)"
  using padding_below_100 [OF float64_rounding_id,
      of "\<lparr>frame_x = 12, frame_y = 1, frame_w = 52, frame_h = 22\<rparr>"
         "[\<lparr>Open = 100, Close = 150, Max_b = 198, Min_b = 98, Trades = 3, Start = 0, Duration = 10\<rparr>]"
         "\<lparr>Open = 100, Close = 150, Max_b = 198, Min_b = 98, Trades = 3, Start = 0, Duration = 10\<rparr>"
         "\<lparr>Open = 100, Close = 110, Max_b = 120, Min_b = 100, Trades = 3, Start = 0, Duration = 10\<rparr>"]
    float64_rounding_id
  by simp

lemma visibleRows_Nil: "visibleRows f [] = []"
  by (simp add: visibleRows_def visit.simps)

lemma toInt_not_DivisionByZero: "toInt v \<noteq> Inl DivisionByZero"
  by (simp add: toInt_def Let_def)

lemma bar_DivisionByZero: "bar rnd volumeSpread w b = Inl DivisionByZero \<longleftrightarrow> volumeSpread = 0"
  using toInt_not_DivisionByZero
  by (auto simp: bar_def split: sum.splits)

lemma volume_rows_Nil: "volume_rows (DrawVolume rnd f []) = []"
  by (simp add: DrawVolume_def Let_def visibleRows_Nil)

text \<open>
  \<open>DrawVolume\<close> itself has no guard: on a bucket with no trade, which \<open>ProcessMessage\<close>
  never builds, the bar is computed by a division by zero.
\<close>

lemma DrawVolume_unguarded:
  "volume_rows (DrawVolume (\<lambda>v. v) \<lparr>frame_x = 0, frame_y = 1, frame_w = 11, frame_h = 22\<rparr>
     [\<lparr>Open = 1, Close = 1, Max_b = 1, Min_b = 1, Trades = 0, Start = 0, Duration = 10\<rparr>]) =
   [(1, Inl DivisionByZero)]"
  by (simp add: DrawVolume_def Let_def visibleRows_def visit.simps volumeUpperBound_def bar_def)

text \<open>
  C9.  In every state that the program reaches, the bar-length computation of the volume
  panel never divides by zero, and when the panel is rendered with \<open>volumeMax = 0\<close> it
  draws no row at all, so no bar cell: the division by zero of \<open>DrawVolume\<close> is unreachable,
  since \<open>volumeMax = 0\<close> happens only with no bucket.
\<close>

theorem no_bar_without_volume:
  assumes "float64_rounding rnd" and "length ms < 2 ^ 63"
  shows "(\<forall>r \<in> set (volume_rows (DrawVolume rnd f (buckets (Ingest d ms)))).
            snd r \<noteq> Inl DivisionByZero) \<and>
         (volumeMax (DrawVolume rnd f (buckets (Ingest d ms))) = 0 \<longrightarrow>
            volume_rows (DrawVolume rnd f (buckets (Ingest d ms))) = [])"
proof (cases "buckets (Ingest d ms) = []")
  case True
  then show ?thesis by (simp add: volume_rows_Nil)
next
  case False
  have "1 \<le> volumeUpperBound rnd (buckets (Ingest d ms))"
    using assms False by (rule volumeUpperBound_Ingest(2))
  then have ne: "volumeUpperBound rnd (buckets (Ingest d ms)) \<noteq> 0" by simp
  then show ?thesis
    by (auto simp: DrawVolume_def Let_def bar_DivisionByZero)
qed

theorem no_bar_without_volume_witness:
  "float64_rounding (\<lambda>v. v) \<and> length ([] :: Message list) < 2 ^ 63 \<and>
   volumeMax (DrawVolume (\<lambda>v. v) \<lparr>frame_x = 0, frame_y = 1, frame_w = 11, frame_h = 22\<rparr>
     (buckets (Ingest 900000000000 []))) = 0 \<and>
   volume_rows (DrawVolume (\<lambda>v. v) \<lparr>frame_x = 0, frame_y = 1, frame_w = 11, frame_h = 22\<rparr>
     (buckets (Ingest 900000000000 []))) = [] \<and>
   volume_rows (DrawVolume (\<lambda>v. v) \<lparr>frame_x = 0, frame_y = 1, frame_w = 11, frame_h = 22\<rparr>
     (buckets (Ingest 900000000000 [\<lparr>Side = ''buy'', Price = 100, Time = 5\<rparr>]))) =
     [(1, Inr [1, 2, 3, 4, 5, 6, 7, 8, 9, 10])]"
proof -
  have l: "length ([] :: Message list) < 2 ^ 63" by simp
  have "[1..10] = [1, 2, 3, 4, 5, 6, 7, 8, 9, 10::int]" by (simp add: upto.simps)
  then have one: "volume_rows (DrawVolume (\<lambda>v. v) \<lparr>frame_x = 0, frame_y = 1, frame_w = 11, frame_h = 22\<rparr>
     (buckets (Ingest 900000000000 [\<lparr>Side = ''buy'', Price = 100, Time = 5\<rparr>]))) =
     [(1, Inr [1, 2, 3, 4, 5, 6, 7, 8, 9, 10])]"
    by (simp add: Ingest_single DrawVolume_def Let_def visibleRows_def visit.simps
        volumeUpperBound_def bar_def tally_def newBucket_def int64_def toInt_def)
  show ?thesis
    using no_bar_without_volume [OF float64_rounding_id l,
        of "\<lparr>frame_x = 0, frame_y = 1, frame_w = 11, frame_h = 22\<rparr>" 900000000000]
      float64_rounding_id one
    by (simp add: Ingest_Nil DrawVolume_def volumeUpperBound_def)
qed

text \<open>
  C10.  After every call of \<open>ProcessMessage\<close>, every bucket of the sequence has at least
  one trade; so whenever the sequence is not empty the volume panel's \<open>volumeMax\<close> is at
  least 1, and \<open>volumeMax = 0\<close> holds exactly when there is no bucket.  (The history
  slice holds every trade ingested, so their number is below \<open>2\<^sup>6\<^sup>3\<close> and the \<open>int64\<close>
  counter does not wrap.)
\<close>

theorem every_bucket_has_a_trade:
  assumes "length ms < 2 ^ 63" and "float64_rounding rnd"
  shows "(\<forall>b \<in> set (buckets (Ingest d ms)). 1 \<le> Trades b) \<and>
         (buckets (Ingest d ms) \<noteq> [] \<longrightarrow>
            1 \<le> volumeMax (DrawVolume rnd f (buckets (Ingest d ms)))) \<and>
         (volumeMax (DrawVolume rnd f (buckets (Ingest d ms))) = 0 \<longleftrightarrow>
            buckets (Ingest d ms) = [])"
proof -
  have a: "\<forall>b \<in> set (buckets (Ingest d ms)). 1 \<le> Trades b"
    using Ingest_bucket_Trades [OF _ assms(1)] by blast
  have b: "1 \<le> volumeMax (DrawVolume rnd f (buckets (Ingest d ms)))"
    if "buckets (Ingest d ms) \<noteq> []"
    using volumeUpperBound_Ingest(2) [OF assms(2,1) that] by (simp add: volumeMax_DrawVolume)
  have c: "volumeMax (DrawVolume rnd f (buckets (Ingest d ms))) = 0"
    if "buckets (Ingest d ms) = []"
    using that by (simp add: volumeMax_DrawVolume volumeUpperBound_Nil)
  show ?thesis using a b c by fastforce
qed

theorem every_bucket_has_a_trade_witness:
  "length [\<lparr>Side = ''buy'', Price = 10, Time = 0\<rparr>,
      \<lparr>Side = ''buy'', Price = 900, Time = 1\<rparr>, \<lparr>Side = ''sell'', Price = 500, Time = 10\<rparr>] < 2 ^ 63 \<and>
   float64_rounding (\<lambda>v. v) \<and>
   map Trades (buckets (Ingest 10 [\<lparr>Side = ''buy'', Price = 10, Time = 0\<rparr>,
      \<lparr>Side = ''buy'', Price = 900, Time = 1\<rparr>, \<lparr>Side = ''sell'', Price = 500, Time = 10\<rparr>])) = [2, 1] \<and>
   buckets (Ingest 10 [\<lparr>Side = ''buy'', Price = 10, Time = 0\<rparr>,
      \<lparr>Side = ''buy'', Price = 900, Time = 1\<rparr>, \<lparr>Side = ''sell'', Price = 500, Time = 10\<rparr>]) \<noteq> [] \<and>
   1 \<le> volumeMax (DrawVolume (\<lambda>v. v) \<lparr>frame_x = 0, frame_y = 1, frame_w = 11, frame_h = 22\<rparr>
     (buckets (Ingest 10 [\<lparr>Side = ''buy'', Price = 10, Time = 0\<rparr>,
      \<lparr>Side = ''buy'', Price = 900, Time = 1\<rparr>, \<lparr>Side = ''sell'', Price = 500, Time = 10\<rparr>])))"
proof -
  let ?ms = "[\<lparr>Side = ''buy'', Price = 10, Time = 0\<rparr>,
      \<lparr>Side = ''buy'', Price = 900, Time = 1\<rparr>, \<lparr>Side = ''sell'', Price = 500, Time = 10\<rparr>]"
  have l: "length ?ms < 2 ^ 63" by simp
  show ?thesis
    using every_bucket_has_a_trade [OF l float64_rounding_id,
        of 10 "\<lparr>frame_x = 0, frame_y = 1, frame_w = 11, frame_h = 22\<rparr>"] float64_rounding_id
    by (simp add: three_trades)
qed

subsection \<open>The stream connector\<close>

lemma readLoop_append:
  "readLoop c (rs @ rs') =
     (fst (readLoop c rs) @ fst (readLoop (snd (readLoop c rs)) rs'),
      snd (readLoop (snd (readLoop c rs)) rs'))"
  by (induction rs arbitrary: c) (simp_all add: split_beta)


lemma readLoop_Cons:
  "readLoop c (r # rs) =
     (fst (onRead c r) @ fst (readLoop (snd (onRead c r)) rs),
      snd (readLoop (snd (onRead c r)) rs))"
  by (simp add: split_beta)

lemma onRead_ReadError:
  "onRead c ReadError =
     ([Sleep (int64 (int64 (int64 (c + 1) * int64 (c + 1)) * Second)), Reconnect], int64 (c + 1))"
  by (simp add: onRead_def Let_def)

lemma onRead_ReadOk:
  "onRead c (ReadOk m) = (if Side m = [] then ([], c) else ([Send m], 0))"
  by (simp add: onRead_def)

lemmas readLoop_eval = readLoop_Cons onRead_ReadError onRead_ReadOk int64_id Second_def









text \<open>
  C5 (amended).  The failure counter is incremented on each read failure, is reset to 0
  on each successful read of a message that has a side (which is then forwarded), and is
  left unchanged by a successful read of a message without a side, which is discarded;
  so a failure that follows a forwarded message waits 1 second before reconnecting.
\<close>

theorem counter_reset_on_forwarded_message:
  "onRead c ReadError = ([Sleep (int64 (int64 (int64 (c + 1) * int64 (c + 1)) * Second)), Reconnect],
                         int64 (c + 1)) \<and>
   onRead c (ReadOk m) = (if Side m = [] then ([], c) else ([Send m], 0)) \<and>
   (Side m \<noteq> [] \<longrightarrow>
      readLoop c (rs @ [ReadOk m, ReadError]) =
        (fst (readLoop c rs) @ [Send m, Sleep Second, Reconnect], 1))"
proof -
  have a: "onRead c (ReadOk m) = (if Side m = [] then ([], c) else ([Send m], 0))" for c
    by (simp add: onRead_def)
  have b: "onRead 0 ReadError = ([Sleep Second, Reconnect], 1)"
    by (simp add: readLoop_eval del: readLoop.simps(2))
  have "readLoop c (rs @ [ReadOk m, ReadError]) =
        (fst (readLoop c rs) @ [Send m, Sleep Second, Reconnect], 1)" if "Side m \<noteq> []"
    using that by (simp add: readLoop_append a b split_beta)
  then show ?thesis using a [of c] by (simp add: onRead_def Let_def)
qed

theorem counter_reset_on_forwarded_message_witness:
  "Side \<lparr>Side = ''buy'', Price = 100, Time = 5\<rparr> \<noteq> [] \<and>
   readLoop 0 ([ReadError, ReadError] @ [ReadOk \<lparr>Side = ''buy'', Price = 100, Time = 5\<rparr>, ReadError]) =
     ([Sleep 1000000000, Reconnect, Sleep 4000000000, Reconnect,
       Send \<lparr>Side = ''buy'', Price = 100, Time = 5\<rparr>, Sleep 1000000000, Reconnect], 1)"
proof -
  have "fst (readLoop 0 [ReadError, ReadError]) =
      [Sleep 1000000000, Reconnect, Sleep 4000000000, Reconnect]"
    by (simp add: readLoop_eval del: readLoop.simps(2))
  then show ?thesis
    using counter_reset_on_forwarded_message [of 0 "\<lparr>Side = ''buy'', Price = 100, Time = 5\<rparr>"
        "[ReadError, ReadError]"]
    by (simp add: Second_def del: readLoop.simps)
qed

text \<open>
  C5 as stated fails: a failure, a successful read of a message without a side and a
  second failure give waits of 1 and 4 seconds, the counter being 1 after the read.
\<close>

theorem discarded_message_counterexample:
  "readLoop 0 [ReadError, ReadOk \<lparr>Side = [], Price = 0, Time = 0\<rparr>, ReadError] =
     ([Sleep Second, Reconnect, Sleep (4 * Second), Reconnect], 2) \<and>
   snd (readLoop 0 [ReadError, ReadOk \<lparr>Side = [], Price = 0, Time = 0\<rparr>]) = 1 \<and>
   4 * Second \<noteq> 1 * Second"
  by (simp add: readLoop_eval del: readLoop.simps(2))

end
